theory Spec2Isabelle
  imports Main
begin

section \<open>Express tracing integration: data model\<close>

text \<open>
  The module \<^verbatim>\<open>packages/tracing/src/integrations/express.ts\<close> replaces the registration
  methods of an Express application by functions that wrap every middleware passed to
  them. JavaScript functions are modelled as values that carry their declared parameter
  count (\<^verbatim>\<open>fn.length\<close>), their \<^verbatim>\<open>name\<close> and their behaviour: a state transformer over
  the world that takes the receiver (\<^verbatim>\<open>this\<close>) and the whole \<^verbatim>\<open>arguments\<close> list and
  either returns a value or throws. The functions of the host (the middlewares, the
  continuation, the registration methods) are parameters; a call of the host that never
  comes back is outside the model.
\<close>

subsection \<open>Plain values, requests and responses\<close>

datatype val =
    VUndefined
  | VNull
  | VBool bool
  | VNum int
  | VStr string
  | VArr "val list"
  | VObj "(string \<times> val) list"
  | VRef nat

text \<open>The part of \<^verbatim>\<open>req\<close> the module reads: \<^verbatim>\<open>method\<close> (here \<open>http_method\<close>), \<^verbatim>\<open>route.path\<close>,
  \<^verbatim>\<open>originalUrl\<close>, \<^verbatim>\<open>baseUrl\<close> and \<^verbatim>\<open>query\<close>. An absent \<^verbatim>\<open>route\<close> or
  \<^verbatim>\<open>route.path\<close> is \<open>None\<close>.\<close>

record route =
  path :: "string option"

record request =
  http_method :: string
  route :: "route option"
  originalUrl :: val
  baseUrl :: val
  query :: val

text \<open>\<^verbatim>\<open>Response & SentryTracingResponse\<close>: an object with the operation \<^verbatim>\<open>once\<close> and the
  optional property \<^verbatim>\<open>__sentry_transaction\<close>, a reference to a transaction of the world.\<close>

record response =
  res_id :: nat
  sentry_transaction :: "nat option"

subsection \<open>Transactions, spans and the world\<close>

text \<open>
  Modelled from the spec: the types \<^verbatim>\<open>Transaction\<close> and \<^verbatim>\<open>Span\<close> of \<^verbatim>\<open>@sentry/types\<close> and
  the response's \<^verbatim>\<open>once\<close> are not part of the module. The spec gives a transaction a
  mutable \<^verbatim>\<open>name\<close>, a key-value metadata set written by \<^verbatim>\<open>setData(key, value)\<close> and
  \<^verbatim>\<open>startChild({description, op})\<close> returning a span; a span carries a description and an
  operation category and has the action \<^verbatim>\<open>finish()\<close>, which is not guarded against being
  called twice, so the model counts the calls.
\<close>

record span =
  description :: string
  op :: string
  finished :: nat

record transaction =
  name :: string
  data :: "string \<rightharpoonup> val"
  spans :: "span list"

text \<open>A span is referred to by its transaction and its position among that
  transaction's children.\<close>

type_synonym span_ref = "nat \<times> nat"

text \<open>The callback \<^verbatim>\<open>() => { span.finish(); }\<close> that the arity-2 wrapper hands to
  \<^verbatim>\<open>res.once\<close>: a closure over the span.\<close>

datatype listener = FinishSpan span_ref

record world =
  transactions :: "nat \<Rightarrow> transaction"
  listeners :: "(nat \<times> string \<times> listener) list"

text \<open>
  Modelled from the spec: the operations of the host on a transaction, a span and a
  response, which the module calls and does not define. The assignment to
  \<^verbatim>\<open>transaction.name\<close> replaces the name; \<^verbatim>\<open>setData(key, value)\<close> writes one entry of the
  metadata; \<^verbatim>\<open>startChild\<close> adds a span that is not finished and returns it;
  \<^verbatim>\<open>finish()\<close> counts one more call on its span; \<^verbatim>\<open>once(name, callback)\<close> registers the
  callback with the response.
\<close>

definition set_name :: "nat \<Rightarrow> string \<Rightarrow> world \<Rightarrow> world" where
  "set_name t n w = w\<lparr>transactions := (transactions w)(t := (transactions w t)\<lparr>name := n\<rparr>)\<rparr>"

definition setData :: "nat \<Rightarrow> string \<Rightarrow> val \<Rightarrow> world \<Rightarrow> world" where
  "setData t k v w =
     w\<lparr>transactions := (transactions w)(t := (transactions w t)\<lparr>data := (data (transactions w t))(k \<mapsto> v)\<rparr>)\<rparr>"

definition startChild :: "nat \<Rightarrow> string \<Rightarrow> string \<Rightarrow> world \<Rightarrow> span_ref \<times> world" where
  "startChild t d c w =
     ((t, length (spans (transactions w t))),
      w\<lparr>transactions := (transactions w)(t := (transactions w t)
          \<lparr>spans := spans (transactions w t) @ [\<lparr>description = d, op = c, finished = 0\<rparr>]\<rparr>)\<rparr>)"

definition finish :: "span_ref \<Rightarrow> world \<Rightarrow> world" where
  "finish s w =
     (let t = fst s; i = snd s; tr = transactions w t in
      if i < length (spans tr)
      then w\<lparr>transactions := (transactions w)(t := tr
              \<lparr>spans := (spans tr)[i := (spans tr ! i)\<lparr>finished := Suc (finished (spans tr ! i))\<rparr>]\<rparr>)\<rparr>
      else w)"

definition once :: "nat \<Rightarrow> string \<Rightarrow> listener \<Rightarrow> world \<Rightarrow> world" where
  "once r ev cb w = w\<lparr>listeners := listeners w @ [(r, ev, cb)]\<rparr>"

text \<open>How often \<^verbatim>\<open>finish()\<close> has been called on a span, and how many spans a
  transaction has.\<close>

definition finish_count :: "span_ref \<Rightarrow> world \<Rightarrow> nat" where
  "finish_count s w =
     (let tr = transactions w (fst s) in
      if snd s < length (spans tr) then finished (spans tr ! snd s) else 0)"

definition span_count :: "nat \<Rightarrow> world \<Rightarrow> nat" where
  "span_count t w = length (spans (transactions w t))"

subsection \<open>Errors and functions\<close>

text \<open>\<open>ArgumentCountError n\<close> is the \<^verbatim>\<open>Error\<close> with the message
  \<^verbatim>\<open>Express middleware takes 2-4 arguments. Got: n\<close>; \<open>TypeError\<close> is what the runtime throws
  on a property read of \<^verbatim>\<open>undefined\<close> or \<^verbatim>\<open>null\<close> and on a call of a value that is not a
  function; \<open>Thrown v\<close> is a value thrown by a function of the host.\<close>

datatype error = ArgumentCountError nat | TypeError | Thrown val

type_synonym 'a outcome = "(error + 'a) \<times> world"

text \<open>A continuation (\<^verbatim>\<open>NextFunction\<close>): it is called with plain values.\<close>

datatype cont =
  Cont (c_length: nat) (c_name: string) (c_apply: "val \<Rightarrow> val list \<Rightarrow> world \<Rightarrow> val outcome")

text \<open>What a middleware is called with: an error value, the request, the response, the
  continuation.\<close>

datatype arg = AVal val | AReq request | ARes response | AFun cont

text \<open>A middleware (\<^verbatim>\<open>RequestHandler | ErrorRequestHandler\<close>).\<close>

datatype handler =
  Handler (h_length: nat) (h_name: string) (h_apply: "val \<Rightarrow> arg list \<Rightarrow> world \<Rightarrow> val outcome")

text \<open>A positional parameter reads \<^verbatim>\<open>undefined\<close> when the caller passed fewer arguments.\<close>

definition arg_at :: "arg list \<Rightarrow> nat \<Rightarrow> arg" where
  "arg_at args i = (if i < length args then args ! i else AVal VUndefined)"

fun nullish :: "arg \<Rightarrow> bool" where
  "nullish (AVal VUndefined) = True"
| "nullish (AVal VNull) = True"
| "nullish _ = False"

text \<open>\<^verbatim>\<open>res.__sentry_transaction\<close>: a \<^verbatim>\<open>TypeError\<close> on \<^verbatim>\<open>undefined\<close> and \<^verbatim>\<open>null\<close>,
  \<^verbatim>\<open>undefined\<close> on a value without the property.\<close>

definition get_sentry_transaction :: "arg \<Rightarrow> error + nat option" where
  "get_sentry_transaction res =
     (if nullish res then Inl TypeError
      else case res of ARes r \<Rightarrow> Inr (sentry_transaction r) | _ \<Rightarrow> Inr None)"

text \<open>The property reads on \<^verbatim>\<open>req\<close> (of type \<^verbatim>\<open>any\<close>); a value that is not a request
  object has none of the properties.\<close>

definition req_route_path :: "arg \<Rightarrow> string option" where
  "req_route_path req =
     (case req of
        AReq r \<Rightarrow> (case route r of Some rt \<Rightarrow> path rt | None \<Rightarrow> None)
      | _ \<Rightarrow> None)"

definition req_method :: "arg \<Rightarrow> string" where
  "req_method req = (case req of AReq r \<Rightarrow> http_method r | _ \<Rightarrow> ''undefined'')"

definition req_originalUrl :: "arg \<Rightarrow> val" where
  "req_originalUrl req = (case req of AReq r \<Rightarrow> originalUrl r | _ \<Rightarrow> VUndefined)"

definition req_baseUrl :: "arg \<Rightarrow> val" where
  "req_baseUrl req = (case req of AReq r \<Rightarrow> baseUrl r | _ \<Rightarrow> VUndefined)"

definition req_query :: "arg \<Rightarrow> val" where
  "req_query req = (case req of AReq r \<Rightarrow> query r | _ \<Rightarrow> VUndefined)"

section \<open>The module\<close>

subsection \<open>addExpressReqToTransaction\<close>

text \<open>
  \<^verbatim>\<open>if (transaction) {
    if (req.route && req.route.path) { transaction.name = `${req.method} ${req.route.path}`; }
    transaction.setData('url', req.originalUrl);
    transaction.setData('baseUrl', req.baseUrl);
    transaction.setData('query', req.query);
  }\<close>
  The test \<^verbatim>\<open>req.route && req.route.path\<close> is one of truthiness: an empty path string
  fails it.
\<close>

definition addExpressReqToTransaction :: "nat option \<Rightarrow> arg \<Rightarrow> world \<Rightarrow> unit outcome" where
  "addExpressReqToTransaction transaction req w =
     (case transaction of
        None \<Rightarrow> (Inr (), w)
      | Some t \<Rightarrow>
          if nullish req then (Inl TypeError, w)
          else
            let w1 = (case req_route_path req of
                        Some p \<Rightarrow> if p \<noteq> [] then set_name t (req_method req @ '' '' @ p) w else w
                      | None \<Rightarrow> w);
                w2 = setData t ''url'' (req_originalUrl req) w1;
                w3 = setData t ''baseUrl'' (req_baseUrl req) w2;
                w4 = setData t ''query'' (req_query req) w3
            in (Inr (), w4))"

subsection \<open>wrap\<close>

text \<open>The continuation handed to an arity-3 or arity-4 middleware:
  \<^verbatim>\<open>function() { if (span) { span.finish(); } return next.apply(this, arguments); }\<close>\<close>

definition wrappedNext :: "span_ref option \<Rightarrow> arg \<Rightarrow> cont" where
  "wrappedNext span next =
     Cont 0 [] (\<lambda>this arguments w.
       let w1 = (case span of Some s \<Rightarrow> finish s w | None \<Rightarrow> w) in
       (case next of
          AFun n \<Rightarrow> c_apply n this arguments w1
        | _ \<Rightarrow> (Inl TypeError, w1)))"

text \<open>\<^verbatim>\<open>transaction && transaction.startChild({ description: fn.name, op: 'middleware' })\<close>\<close>

definition openSpan :: "nat option \<Rightarrow> handler \<Rightarrow> world \<Rightarrow> span_ref option \<times> world" where
  "openSpan transaction fn w =
     (case transaction of
        None \<Rightarrow> (None, w)
      | Some t \<Rightarrow> (let (s, w1) = startChild t (h_name fn) ''middleware'' w in (Some s, w1)))"

text \<open>Case 2: \<^verbatim>\<open>function(req, res)\<close>.\<close>

definition wrapped2 :: "handler \<Rightarrow> val \<Rightarrow> arg list \<Rightarrow> world \<Rightarrow> val outcome" where
  "wrapped2 fn this arguments w =
     (let req = arg_at arguments 0; res = arg_at arguments 1 in
      case get_sentry_transaction res of
        Inl e \<Rightarrow> (Inl e, w)
      | Inr transaction \<Rightarrow>
          (case addExpressReqToTransaction transaction req w of
             (Inl e, w1) \<Rightarrow> (Inl e, w1)
           | (Inr _, w1) \<Rightarrow>
               let w2 = (case openSpan transaction fn w1 of
                           (Some s, w') \<Rightarrow>
                             (case res of
                                ARes r \<Rightarrow> once (res_id r) ''finish'' (FinishSpan s) w'
                              | _ \<Rightarrow> w')
                         | (None, w') \<Rightarrow> w')
               in h_apply fn this arguments w2))"

text \<open>A call that is a statement of its own, at the end of a function without
  \<^verbatim>\<open>return\<close>: what the callee throws is thrown on, what it returns is dropped and the
  caller returns \<^verbatim>\<open>undefined\<close>.\<close>

definition dropped :: "val outcome \<Rightarrow> val outcome" where
  "dropped out = (case out of (Inl e, w) \<Rightarrow> (Inl e, w) | (Inr _, w) \<Rightarrow> (Inr VUndefined, w))"

text \<open>Case 3: \<^verbatim>\<open>function(req, res, next)\<close>, whose body ends with the statement
  \<^verbatim>\<open>fn.call(this, req, res, function() { ... });\<close>\<close>

definition wrapped3 :: "handler \<Rightarrow> val \<Rightarrow> arg list \<Rightarrow> world \<Rightarrow> val outcome" where
  "wrapped3 fn this arguments w =
     (let req = arg_at arguments 0; res = arg_at arguments 1; next = arg_at arguments 2 in
      case get_sentry_transaction res of
        Inl e \<Rightarrow> (Inl e, w)
      | Inr transaction \<Rightarrow>
          (case addExpressReqToTransaction transaction req w of
             (Inl e, w1) \<Rightarrow> (Inl e, w1)
           | (Inr _, w1) \<Rightarrow>
               (let (span, w2) = openSpan transaction fn w1 in
                dropped (h_apply fn this [req, res, AFun (wrappedNext span next)] w2))))"

text \<open>Case 4: \<^verbatim>\<open>function(err, req, res, next)\<close>.\<close>

definition wrapped4 :: "handler \<Rightarrow> val \<Rightarrow> arg list \<Rightarrow> world \<Rightarrow> val outcome" where
  "wrapped4 fn this arguments w =
     (let err = arg_at arguments 0; req = arg_at arguments 1; res = arg_at arguments 2;
          next = arg_at arguments 3 in
      case get_sentry_transaction res of
        Inl e \<Rightarrow> (Inl e, w)
      | Inr transaction \<Rightarrow>
          (case addExpressReqToTransaction transaction req w of
             (Inl e, w1) \<Rightarrow> (Inl e, w1)
           | (Inr _, w1) \<Rightarrow>
               (let (span, w2) = openSpan transaction fn w1 in
                dropped (h_apply fn this [err, req, res, AFun (wrappedNext span next)] w2))))"

text \<open>\<^verbatim>\<open>switch (fn.length)\<close>. The three function expressions are anonymous and declare 2, 3
  and 4 parameters (\<^verbatim>\<open>this\<close> is a type annotation, not a parameter).\<close>

definition wrap :: "handler \<Rightarrow> error + handler" where
  "wrap fn =
     (let arity = h_length fn in
      if arity = 2 then Inr (Handler 2 [] (wrapped2 fn))
      else if arity = 3 then Inr (Handler 3 [] (wrapped3 fn))
      else if arity = 4 then Inr (Handler 4 [] (wrapped4 fn))
      else Inl (ArgumentCountError arity))"

subsection \<open>wrapUseArgs\<close>

text \<open>An argument of a registration method: a plain value (a path), a function, or an
  array, whose elements are again such arguments. An array without functions may also be
  a plain value; mapping it changes nothing.\<close>

datatype uarg = UVal val | UFun handler | UArr "uarg list"

text \<open>\<^verbatim>\<open>Array.prototype.map\<close> with a callback that may throw: the elements are visited from
  left to right and the first throw ends the loop.\<close>

fun mapE :: "('a \<Rightarrow> error + 'b) \<Rightarrow> 'a list \<Rightarrow> error + 'b list" where
  "mapE f [] = Inr []"
| "mapE f (x # xs) =
     (case f x of
        Inl e \<Rightarrow> Inl e
      | Inr y \<Rightarrow> (case mapE f xs of Inl e \<Rightarrow> Inl e | Inr ys \<Rightarrow> Inr (y # ys)))"

text \<open>The inner callback:
  \<^verbatim>\<open>(a) => { if (typeof a === 'function') { return wrap(a); } return a; }\<close>\<close>

definition wrapElem :: "uarg \<Rightarrow> error + uarg" where
  "wrapElem a =
     (case a of
        UFun f \<Rightarrow> (case wrap f of Inl e \<Rightarrow> Inl e | Inr g \<Rightarrow> Inr (UFun g))
      | _ \<Rightarrow> Inr a)"

text \<open>The outer callback: a function is wrapped, an array is mapped with the inner
  callback, anything else is returned as it is.\<close>

definition wrapArg :: "uarg \<Rightarrow> error + uarg" where
  "wrapArg arg =
     (case arg of
        UFun f \<Rightarrow> (case wrap f of Inl e \<Rightarrow> Inl e | Inr g \<Rightarrow> Inr (UFun g))
      | UArr xs \<Rightarrow> (case mapE wrapElem xs of Inl e \<Rightarrow> Inl e | Inr ys \<Rightarrow> Inr (UArr ys))
      | UVal v \<Rightarrow> Inr arg)"

definition wrapUseArgs :: "uarg list \<Rightarrow> error + uarg list" where
  "wrapUseArgs args = mapE wrapArg args"

subsection \<open>patchMiddleware, instrumentMiddlewares, routeMiddlewares\<close>

text \<open>The keys of \<^verbatim>\<open>Application\<close>: \<^verbatim>\<open>Method | 'use'\<close>.\<close>

datatype Method =
    M_all | M_get | M_post | M_put | M_delete | M_patch | M_options | M_head
  | M_checkout | M_copy | M_lock | M_merge | M_mkactivity | M_mkcol | M_move | M_m_search
  | M_notify | M_purge | M_report | M_search | M_subscribe | M_trace | M_unlock
  | M_unsubscribe

datatype key = Use | Verb Method

text \<open>A registration method of the host, over the host's own state \<open>'s\<close>.\<close>

datatype 's appfun =
  AppFun (a_length: nat) (a_name: string)
         (a_apply: "val \<Rightarrow> uarg list \<Rightarrow> 's \<Rightarrow> (error + val) \<times> 's")

type_synonym 's application = "key \<Rightarrow> 's appfun"

text \<open>The replacement of a registration method:
  \<^verbatim>\<open>function() { return originalAppCallback.apply(this, wrapUseArgs(arguments)); }\<close>\<close>

definition patched :: "'s appfun \<Rightarrow> 's appfun" where
  "patched originalAppCallback =
     AppFun 0 [] (\<lambda>this arguments s.
       case wrapUseArgs arguments of
         Inl e \<Rightarrow> (Inl e, s)
       | Inr args \<Rightarrow> a_apply originalAppCallback this args s)"

definition patchMiddleware :: "'s application \<Rightarrow> key \<Rightarrow> 's application" where
  "patchMiddleware app meth =
     (let originalAppCallback = app meth in app(meth := patched originalAppCallback))"

definition instrumentMiddlewares :: "'s application \<Rightarrow> 's application" where
  "instrumentMiddlewares app = patchMiddleware app Use"

text \<open>\<^verbatim>\<open>methods: Method[] = []\<close>: an absent list is the empty list.\<close>

definition routeMiddlewares :: "'s application \<Rightarrow> Method list option \<Rightarrow> 's application" where
  "routeMiddlewares app methods =
     fold (\<lambda>meth a. patchMiddleware a (Verb meth))
          (case methods of None \<Rightarrow> [] | Some ms \<Rightarrow> ms) app"

subsection \<open>Express.setupOnce\<close>

text \<open>The integration holds a reference to the application (\<^verbatim>\<open>_app\<close>, here \<open>x_app\<close>) and
  the configured verbs (\<^verbatim>\<open>_methods\<close>, here \<open>x_methods\<close>), both optional. The applications
  live in a store, so that a patch of one application is seen to leave the others alone.\<close>

record express =
  x_app :: "nat option"
  x_methods :: "Method list option"

record 's runtime =
  apps :: "nat \<Rightarrow> 's application"
  logged :: "string list"

text \<open>Modelled from the spec: \<^verbatim>\<open>logger.error\<close> of \<^verbatim>\<open>@sentry/utils\<close>, which the module
  calls and does not define, reports a logged diagnostic; the model appends the message
  to the log of the runtime.\<close>

definition setupOnce :: "express \<Rightarrow> 's runtime \<Rightarrow> 's runtime" where
  "setupOnce x rt =
     (case x_app x of
        None \<Rightarrow> rt\<lparr>logged := logged rt @ [''ExpressIntegration is missing an Express instance'']\<rparr>
      | Some a \<Rightarrow>
          rt\<lparr>apps := (apps rt)(a := routeMiddlewares (instrumentMiddlewares (apps rt a)) (x_methods x))\<rparr>)"

section \<open>Sample values\<close>

text \<open>A world without spans, a request matched by the route \<^verbatim>\<open>/users/:id\<close>, a response with
  and without a transaction, and the continuation of the host.\<close>

definition world0 :: world where
  "world0 = \<lparr>transactions = (\<lambda>_. \<lparr>name = ''unnamed'', data = Map.empty, spans = []\<rparr>),
             listeners = []\<rparr>"

definition req_users :: request where
  "req_users = \<lparr>http_method = ''GET'', route = Some \<lparr>path = Some ''/users/:id''\<rparr>,
                originalUrl = VStr ''/api/users/42?full=1'', baseUrl = VStr ''/api'',
                query = VObj [(''full'', VStr ''1'')]\<rparr>"

definition res_traced :: response where
  "res_traced = \<lparr>res_id = 1, sentry_transaction = Some 7\<rparr>"

definition res_plain :: response where
  "res_plain = \<lparr>res_id = 1, sentry_transaction = None\<rparr>"

definition host_next :: cont where
  "host_next = Cont 1 ''next'' (\<lambda>this arguments w. (Inr (VStr ''routed''), w))"

text \<open>Middlewares of each form, and a function that declares no parameter.\<close>

definition send2 :: handler where
  "send2 = Handler 2 ''send'' (\<lambda>this arguments w. (Inr (VStr ''sent''), w))"

definition pass3 :: handler where
  "pass3 = Handler 3 ''pass'' (\<lambda>this arguments w.
     case arg_at arguments 2 of
       AFun c \<Rightarrow> c_apply c this [] w
     | _ \<Rightarrow> (Inl TypeError, w))"

definition onError4 :: handler where
  "onError4 = Handler 4 ''onError'' (\<lambda>this arguments w.
     case arg_at arguments 3 of
       AFun c \<Rightarrow> c_apply c this [VStr ''route''] w
     | _ \<Rightarrow> (Inl TypeError, w))"

definition noop0 :: handler where
  "noop0 = Handler 0 ''noop'' (\<lambda>this arguments w. (Inr VUndefined, w))"

text \<open>A middleware that calls its continuation \<open>k\<close> times, and stops when a call throws.\<close>

fun call_times :: "nat \<Rightarrow> cont \<Rightarrow> val \<Rightarrow> world \<Rightarrow> val outcome" where
  "call_times 0 c this w = (Inr VUndefined, w)"
| "call_times (Suc k) c this w =
     (case c_apply c this [] w of
        (Inl e, w1) \<Rightarrow> (Inl e, w1)
      | (Inr _, w1) \<Rightarrow> call_times k c this w1)"

definition caller :: "nat \<Rightarrow> handler" where
  "caller k = Handler 3 ''caller'' (\<lambda>this arguments w.
     case arg_at arguments 2 of
       AFun c \<Rightarrow> call_times k c this w
     | _ \<Rightarrow> (Inl TypeError, w))"

text \<open>A middleware that throws the \<^verbatim>\<open>name\<close> of the continuation it is given.\<close>

definition probe3 :: handler where
  "probe3 = Handler 3 ''probe'' (\<lambda>this arguments w.
     case arg_at arguments 2 of
       AFun c \<Rightarrow> (Inl (Thrown (VStr (c_name c))), w)
     | _ \<Rightarrow> (Inl TypeError, w))"

text \<open>An application whose registration methods count the arguments they are given and
  return their receiver.\<close>

definition counting_app :: "nat application" where
  "counting_app = (\<lambda>k. AppFun 1 ''use'' (\<lambda>this arguments n. (Inr this, n + length arguments)))"

section \<open>Auxiliary facts\<close>

lemma wrap_Inl: "wrap fn = Inl e \<Longrightarrow> e = ArgumentCountError (h_length fn) \<and> h_length fn \<notin> {2, 3, 4}"
  by (auto simp: wrap_def Let_def split: if_splits)

lemma wrap_Inr: "wrap fn = Inr g \<Longrightarrow> h_length g = h_length fn \<and> h_length fn \<in> {2, 3, 4} \<and> h_name g = []"
  by (auto simp: wrap_def Let_def split: if_splits)

lemma mapE_Inl: "mapE f xs = Inl e \<Longrightarrow> \<exists>x \<in> set xs. f x = Inl e"
  by (induction xs) (auto split: sum.splits)

lemma mapE_fails: "x \<in> set xs \<Longrightarrow> f x = Inl e \<Longrightarrow> \<exists>e'. mapE f xs = Inl e'"
  by (induction xs) (auto split: sum.splits)

lemma mapE_Inr: "mapE f xs = Inr ys \<Longrightarrow> length ys = length xs \<and> (\<forall>i < length xs. f (xs ! i) = Inr (ys ! i))"
proof (induction xs arbitrary: ys)
  case Nil
  then show ?case by simp
next
  case (Cons x xs)
  then show ?case
    by (auto split: sum.splits simp: nth_Cons split: nat.splits)
qed

lemma wrapElem_Inl: "wrapElem a = Inl e \<Longrightarrow> \<exists>m. m \<notin> {2, 3, 4} \<and> e = ArgumentCountError m"
  by (auto simp: wrapElem_def split: uarg.splits sum.splits dest: wrap_Inl)

lemma wrapArg_Inl: "wrapArg a = Inl e \<Longrightarrow> \<exists>m. m \<notin> {2, 3, 4} \<and> e = ArgumentCountError m"
  by (auto simp: wrapArg_def split: uarg.splits sum.splits dest!: wrap_Inl mapE_Inl wrapElem_Inl)

lemma wrapUseArgs_Inl:
  assumes "wrapUseArgs args = Inl e"
  shows "\<exists>m. m \<notin> {2, 3, 4} \<and> e = ArgumentCountError m"
proof -
  from assms obtain a where "wrapArg a = Inl e"
    unfolding wrapUseArgs_def by (auto dest: mapE_Inl)
  then show ?thesis by (rule wrapArg_Inl)
qed

lemma patched_apply:
  "a_apply (patchMiddleware app meth meth) this args s =
     (case wrapUseArgs args of Inl e \<Rightarrow> (Inl e, s) | Inr args' \<Rightarrow> a_apply (app meth) this args' s)"
  by (simp add: patchMiddleware_def patched_def Let_def)

lemma sample_lengths:
  "h_length send2 = 2" "h_length pass3 = 3" "h_length onError4 = 4" "h_length noop0 = 0"
  "h_length (caller k) = 3" "h_length probe3 = 3"
  by (simp_all add: send2_def pass3_def onError4_def noop0_def caller_def probe3_def)

lemma sample_names:
  "h_name send2 = ''send''" "h_name pass3 = ''pass''" "h_name onError4 = ''onError''"
  "h_name (caller k) = ''caller''" "h_name probe3 = ''probe''"
  by (simp_all add: send2_def pass3_def onError4_def caller_def probe3_def)

lemma sample_wraps:
  "wrap send2 = Inr (Handler 2 [] (wrapped2 send2))"
  "wrap pass3 = Inr (Handler 3 [] (wrapped3 pass3))"
  "wrap onError4 = Inr (Handler 4 [] (wrapped4 onError4))"
  "wrap noop0 = Inl (ArgumentCountError 0)"
  "wrap (caller k) = Inr (Handler 3 [] (wrapped3 (caller k)))"
  "wrap probe3 = Inr (Handler 3 [] (wrapped3 probe3))"
  by (simp_all add: wrap_def sample_lengths)

section \<open>Properties of wrap\<close>

text \<open>
  C1. A function that declares 2, 3 or 4 parameters is wrapped: \<open>wrap\<close> returns a function,
  and the function it returns declares as many parameters as the original.
\<close>

theorem wrap_preserves_arity:
  "h_length fn \<in> {2, 3, 4} \<Longrightarrow> \<exists>g. wrap fn = Inr g \<and> h_length g = h_length fn"
  by (auto simp: wrap_def Let_def)

theorem wrap_preserves_arity_witness:
  "h_length pass3 \<in> {2, 3, 4} \<and> (\<exists>g. wrap pass3 = Inr g \<and> h_length g = 3)"
  using wrap_preserves_arity [of pass3] by (simp add: sample_lengths)

text \<open>
  C2. For a function whose declared parameter count is not 2, 3 or 4, \<open>wrap\<close> returns no
  wrapper: it throws the argument-count error with that count. A patched registration
  method that is given the function, as an argument or as an element of an array
  argument, throws an argument-count error to its caller and leaves the state of the
  host as it was: the original method is not called.
\<close>

theorem wrap_rejects_other_arities:
  assumes "h_length fn \<notin> {2, 3, 4}"
  shows "wrap fn = Inl (ArgumentCountError (h_length fn)) \<and>
         ((UFun fn \<in> set args \<or> (\<exists>xs. UArr xs \<in> set args \<and> UFun fn \<in> set xs)) \<longrightarrow>
          (\<exists>m. m \<notin> {2, 3, 4} \<and>
               a_apply (patchMiddleware app meth meth) this args s = (Inl (ArgumentCountError m), s)))"
proof (intro conjI impI)
  show raised: "wrap fn = Inl (ArgumentCountError (h_length fn))"
    using assms by (auto simp: wrap_def Let_def)
  assume "UFun fn \<in> set args \<or> (\<exists>xs. UArr xs \<in> set args \<and> UFun fn \<in> set xs)"
  then obtain a e where a: "a \<in> set args" "wrapArg a = Inl e"
  proof
    assume "UFun fn \<in> set args"
    moreover have "wrapArg (UFun fn) = Inl (ArgumentCountError (h_length fn))"
      by (simp add: wrapArg_def raised)
    ultimately show ?thesis using that by blast
  next
    assume "\<exists>xs. UArr xs \<in> set args \<and> UFun fn \<in> set xs"
    then obtain xs where xs: "UArr xs \<in> set args" "UFun fn \<in> set xs" by blast
    have "wrapElem (UFun fn) = Inl (ArgumentCountError (h_length fn))"
      by (simp add: wrapElem_def raised)
    from mapE_fails [of _ _ wrapElem, OF xs(2) this] obtain e' where "mapE wrapElem xs = Inl e'" ..
    then have "wrapArg (UArr xs) = Inl e'"
      by (simp add: wrapArg_def)
    with xs(1) show ?thesis using that by blast
  qed
  from mapE_fails [of _ _ wrapArg, OF a] obtain e' where e': "wrapUseArgs args = Inl e'"
    unfolding wrapUseArgs_def ..
  then obtain m where m: "m \<notin> {2, 3, 4}" "e' = ArgumentCountError m"
    using wrapUseArgs_Inl by blast
  have "a_apply (patchMiddleware app meth meth) this args s = (Inl (ArgumentCountError m), s)"
    by (simp add: patched_apply e' m(2))
  with m(1) show "\<exists>m. m \<notin> {2, 3, 4} \<and>
      a_apply (patchMiddleware app meth meth) this args s = (Inl (ArgumentCountError m), s)"
    by blast
qed


theorem wrap_rejects_other_arities_witness:
  "h_length noop0 \<notin> {2, 3, 4} \<and> wrap noop0 = Inl (ArgumentCountError 0) \<and>
   (\<exists>m. m \<notin> {2, 3, 4} \<and>
        a_apply (patchMiddleware counting_app Use Use) (VRef 0)
          [UVal (VStr ''/api''), UArr [UFun pass3, UFun noop0]] 5 = (Inl (ArgumentCountError m), 5))"
proof -
  have h: "h_length noop0 \<notin> {2, 3, 4}"
    by (simp add: sample_lengths)
  have inside: "UFun noop0 \<in> set [UVal (VStr ''/api''), UArr [UFun pass3, UFun noop0]] \<or>
      (\<exists>xs. UArr xs \<in> set [UVal (VStr ''/api''), UArr [UFun pass3, UFun noop0]] \<and> UFun noop0 \<in> set xs)"
    by simp
  show ?thesis
    using h inside
      wrap_rejects_other_arities [OF h, of "[UVal (VStr ''/api''), UArr [UFun pass3, UFun noop0]]"
        counting_app Use "VRef 0" 5]
    by (simp only: sample_lengths) blast
qed

section \<open>Running a wrapper\<close>

text \<open>What a wrapper does once the reads and calls before the call of the original
  middleware have gone through: the original is called on the world they leave.\<close>

lemma wrap_cases:
  assumes "wrap fn = Inr g"
  obtains "h_length fn = 2" "g = Handler 2 [] (wrapped2 fn)"
        | "h_length fn = 3" "g = Handler 3 [] (wrapped3 fn)"
        | "h_length fn = 4" "g = Handler 4 [] (wrapped4 fn)"
  using assms by (auto simp: wrap_def Let_def split: if_splits)

lemma wrapped2_run:
  assumes "arg_at args 0 = req" and "arg_at args 1 = res"
    and "get_sentry_transaction res = Inr tx"
    and "addExpressReqToTransaction tx req w = (Inr u, w1)"
    and "openSpan tx fn w1 = (sp, w2)"
  shows "wrapped2 fn this args w =
         h_apply fn this args
           (case sp of
              Some s \<Rightarrow> (case res of
                           ARes r \<Rightarrow> once (res_id r) ''finish'' (FinishSpan s) w2
                         | _ \<Rightarrow> w2)
            | None \<Rightarrow> w2)"
  using assms by (simp add: wrapped2_def Let_def split: option.splits)

lemma wrapped3_run:
  assumes "arg_at args 0 = req" and "arg_at args 1 = res"
    and "get_sentry_transaction res = Inr tx"
    and "addExpressReqToTransaction tx req w = (Inr u, w1)"
    and "openSpan tx fn w1 = (sp, w2)"
  shows "wrapped3 fn this args w =
         dropped (h_apply fn this [req, res, AFun (wrappedNext sp (arg_at args 2))] w2)"
  using assms by (simp add: wrapped3_def Let_def)

lemma wrapped4_run:
  assumes "arg_at args 1 = req" and "arg_at args 2 = res"
    and "get_sentry_transaction res = Inr tx"
    and "addExpressReqToTransaction tx req w = (Inr u, w1)"
    and "openSpan tx fn w1 = (sp, w2)"
  shows "wrapped4 fn this args w =
         dropped (h_apply fn this
           [arg_at args 0, req, res, AFun (wrappedNext sp (arg_at args 3))] w2)"
  using assms by (simp add: wrapped4_def Let_def)

lemma addExpressReqToTransaction_request:
  "addExpressReqToTransaction (Some t) (AReq r) w =
     (Inr (),
      setData t ''query'' (query r) (setData t ''baseUrl'' (baseUrl r) (setData t ''url'' (originalUrl r)
        (case route r of
           Some rt \<Rightarrow> (case path rt of
                        Some p \<Rightarrow> if p \<noteq> [] then set_name t (http_method r @ '' '' @ p) w else w
                      | None \<Rightarrow> w)
         | None \<Rightarrow> w))))"
  by (simp add: addExpressReqToTransaction_def req_route_path_def req_method_def
      req_originalUrl_def req_baseUrl_def req_query_def Let_def split: option.splits)






lemma get_sentry_transaction_res [simp]:
  "get_sentry_transaction (ARes rs) = Inr (sentry_transaction rs)"
  by (simp add: get_sentry_transaction_def)

lemma openSpan_Some:
  "startChild t (h_name fn) ''middleware'' w = (sp, w') \<Longrightarrow> openSpan (Some t) fn w = (Some sp, w')"
  by (simp add: openSpan_def)

lemma openSpan_None [simp]: "openSpan None fn w = (None, w)"
  by (simp add: openSpan_def)

lemma sample_request:
  "http_method req_users = ''GET''" "route req_users = Some \<lparr>path = Some ''/users/:id''\<rparr>"
  "originalUrl req_users = VStr ''/api/users/42?full=1''" "baseUrl req_users = VStr ''/api''"
  "query req_users = VObj [(''full'', VStr ''1'')]"
  "sentry_transaction res_traced = Some 7" "res_id res_traced = 1"
  "sentry_transaction res_plain = None" "res_id res_plain = 1"
  by (simp_all add: req_users_def res_traced_def res_plain_def)



lemma world0_simps:
  "name (transactions world0 t) = ''unnamed''" "data (transactions world0 t) = Map.empty"
  "spans (transactions world0 t) = []" "listeners world0 = []"
  by (simp_all add: world0_def)


section \<open>Calls without a transaction\<close>

lemma addExpressReqToTransaction_None [simp]:
  "addExpressReqToTransaction None req w = (Inr (), w)"
  by (simp add: addExpressReqToTransaction_def)

lemma wrappedNext_apply:
  "c_apply (wrappedNext span (AFun n)) this arguments w =
     c_apply n this arguments (case span of Some s \<Rightarrow> finish s w | None \<Rightarrow> w)"
  by (simp add: wrappedNext_def Let_def)

lemma sample_next:
  "c_length host_next = 1" "c_name host_next = ''next''"
  "c_apply host_next this arguments w = (Inr (VStr ''routed''), w)"
  by (simp_all add: host_next_def)

lemma wrappedNext_sel:
  "c_length (wrappedNext span next) = 0" "c_name (wrappedNext span next) = []"
  by (simp_all add: wrappedNext_def)

lemma probe3_apply:
  "h_apply probe3 this [a, b, AFun c] w = (Inl (Thrown (VStr (c_name c))), w)"
  by (simp add: probe3_def arg_at_def)

text \<open>
  C4, as amended. The response of the call carries no transaction. Then the wrapper calls
  the original middleware once, with its own receiver and on the world it was called on:
  it opens no span, registers no listener and writes to no transaction. An arity-2
  wrapper passes on its whole argument list. An arity-3 or arity-4 wrapper passes on its
  first two or three positional arguments and, in place of the continuation, a new
  function; that function, there being no span, does what the continuation it was made
  from does, for every receiver and argument list.
\<close>

theorem untraced_call:
  assumes g: "wrap fn = Inr g"
    and none: "get_sentry_transaction (arg_at args (if h_length fn = 4 then 2 else 1)) = Inr None"
  shows "h_apply g this args w =
           (if h_length fn = 2 then h_apply fn this args w
            else if h_length fn = 3 then
              dropped (h_apply fn this
                [arg_at args 0, arg_at args 1, AFun (wrappedNext None (arg_at args 2))] w)
            else
              dropped (h_apply fn this
                [arg_at args 0, arg_at args 1, arg_at args 2,
                 AFun (wrappedNext None (arg_at args 3))] w)) \<and>
         c_apply (wrappedNext None (AFun n)) = c_apply n"
proof
  show "c_apply (wrappedNext None (AFun n)) = c_apply n"
    by (simp add: wrappedNext_def)
  show "h_apply g this args w =
           (if h_length fn = 2 then h_apply fn this args w
            else if h_length fn = 3 then
              dropped (h_apply fn this
                [arg_at args 0, arg_at args 1, AFun (wrappedNext None (arg_at args 2))] w)
            else
              dropped (h_apply fn this
                [arg_at args 0, arg_at args 1, arg_at args 2,
                 AFun (wrappedNext None (arg_at args 3))] w))"
  proof (rule wrap_cases [OF g])
    assume a: "h_length fn = 2" "g = Handler 2 [] (wrapped2 fn)"
    with none have "get_sentry_transaction (arg_at args 1) = Inr None" by simp
    from wrapped2_run [OF refl refl this addExpressReqToTransaction_None openSpan_None, of fn this]
    show ?thesis by (simp add: a)
  next
    assume a: "h_length fn = 3" "g = Handler 3 [] (wrapped3 fn)"
    with none have "get_sentry_transaction (arg_at args 1) = Inr None" by simp
    from wrapped3_run [OF refl refl this addExpressReqToTransaction_None openSpan_None, of fn this]
    show ?thesis by (simp add: a)
  next
    assume a: "h_length fn = 4" "g = Handler 4 [] (wrapped4 fn)"
    with none have "get_sentry_transaction (arg_at args 2) = Inr None" by simp
    from wrapped4_run [OF refl refl this addExpressReqToTransaction_None openSpan_None, of fn this]
    show ?thesis by (simp add: a)
  qed
qed

theorem untraced_call_witness:
  "wrap pass3 = Inr (Handler 3 [] (wrapped3 pass3)) \<and>
   get_sentry_transaction (ARes res_plain) = Inr None \<and>
   h_apply (Handler 3 [] (wrapped3 pass3)) (VRef 9) [AReq req_users, ARes res_plain, AFun host_next] world0 =
     dropped (h_apply pass3 (VRef 9)
       [AReq req_users, ARes res_plain, AFun (wrappedNext None (AFun host_next))] world0) \<and>
   c_apply (wrappedNext None (AFun host_next)) = c_apply host_next"
proof -
  have h1: "wrap pass3 = Inr (Handler 3 [] (wrapped3 pass3))"
    by (simp add: sample_wraps)
  have h2: "get_sentry_transaction
      (arg_at [AReq req_users, ARes res_plain, AFun host_next] (if h_length pass3 = 4 then 2 else 1)) = Inr None"
    by (simp add: sample_lengths arg_at_def sample_request)
  show ?thesis
    using h1 untraced_call [OF h1 h2, of "VRef 9" world0 host_next]
    by (simp add: sample_lengths sample_request arg_at_def)
qed

text \<open>
  The claim as stated asks for unchanged arguments, the same values. The middleware
  \<open>probe3\<close> throws the name of the continuation it is given: called with the continuation
  of the host it throws \<^verbatim>\<open>next\<close>, called through its wrapper with the same arguments it
  throws the empty name of the function the wrapper has put in place of the continuation.
\<close>

theorem untraced_call_counterexample:
  "wrap probe3 = Inr (Handler 3 [] (wrapped3 probe3)) \<and>
   get_sentry_transaction (ARes res_plain) = Inr None \<and>
   h_apply probe3 (VRef 9) [AReq req_users, ARes res_plain, AFun host_next] world0 =
     (Inl (Thrown (VStr ''next'')), world0) \<and>
   h_apply (Handler 3 [] (wrapped3 probe3)) (VRef 9)
     [AReq req_users, ARes res_plain, AFun host_next] world0 = (Inl (Thrown (VStr [])), world0) \<and>
   h_apply (Handler 3 [] (wrapped3 probe3)) (VRef 9)
     [AReq req_users, ARes res_plain, AFun host_next] world0 \<noteq>
   dropped (h_apply probe3 (VRef 9) [AReq req_users, ARes res_plain, AFun host_next] world0)"
proof -
  have run: "wrapped3 probe3 (VRef 9) [AReq req_users, ARes res_plain, AFun host_next] world0 =
      dropped (h_apply probe3 (VRef 9)
        [AReq req_users, ARes res_plain, AFun (wrappedNext None (AFun host_next))] world0)"
    using wrapped3_run [of "[AReq req_users, ARes res_plain, AFun host_next]" "AReq req_users"
        "ARes res_plain" None world0 "()" world0 probe3 None world0 "VRef 9"]
    by (simp add: arg_at_def sample_request)
  show ?thesis
    by (simp add: sample_wraps sample_request run probe3_apply wrappedNext_sel sample_next dropped_def)
qed

section \<open>Spans and continuations\<close>

lemma span_count_simps:
  "span_count t (setData t' k v w) = span_count t w"
  "span_count t (set_name t' n w) = span_count t w"
  "span_count t (once r ev cb w) = span_count t w"
  "span_count t (finish s w) = span_count t w"
  "span_count t (snd (startChild t d c w)) = Suc (span_count t w)"
  by (simp_all add: span_count_def setData_def set_name_def once_def finish_def startChild_def Let_def)

lemma span_count_addExpressReqToTransaction:
  "span_count t (snd (addExpressReqToTransaction tx req w)) = span_count t w"
  by (simp add: addExpressReqToTransaction_def Let_def span_count_simps
      split: option.splits)

lemma startChild_ref:
  "fst (startChild t d c w) = (t, span_count t w)"
  by (simp add: startChild_def span_count_def)

lemma finish_count_startChild:
  "finish_count (t, span_count t w) (snd (startChild t d c w)) = 0"
  by (simp add: finish_count_def startChild_def span_count_def)

lemma finish_count_finish:
  "snd s < span_count (fst s) w \<Longrightarrow> finish_count s (finish s w) = Suc (finish_count s w)"
  by (simp add: finish_count_def finish_def span_count_def Let_def)

lemma span_count_funpow:
  "span_count t ((finish s ^^ k) w) = span_count t w"
  by (induction k) (simp_all add: span_count_simps)

lemma finish_count_funpow:
  "snd s < span_count (fst s) w \<Longrightarrow> finish_count s ((finish s ^^ k) w) = finish_count s w + k"
proof (induction k)
  case 0
  then show ?case by simp
next
  case (Suc k)
  with span_count_funpow [where t = "fst s" and s = s and k = k and w = w] show ?case
    by (simp add: finish_count_finish)
qed

text \<open>A middleware that calls the wrapped continuation \<open>k\<close> times finishes the span
  \<open>k\<close> times.\<close>

lemma call_times_wrappedNext:
  "call_times k (wrappedNext (Some s) (AFun host_next)) this w = (Inr VUndefined, (finish s ^^ k) w)"
proof (induction k arbitrary: w)
  case 0
  show ?case by simp
next
  case (Suc k)
  show ?case
    by (simp add: wrappedNext_apply sample_next Suc funpow_swap1)
qed

lemma caller_apply:
  "h_apply (caller k) this [a, b, AFun c] w = call_times k c this w"
  by (simp add: caller_def arg_at_def)

lemma wrapped3_caller:
  assumes tx: "sentry_transaction rs = Some t"
  shows "\<exists>w'. wrapped3 (caller k) this [AReq r, ARes rs, AFun host_next] w = (Inr VUndefined, w') \<and>
              span_count t w' = Suc (span_count t w) \<and>
              finish_count (t, span_count t w) w' = k"
proof -
  obtain w1 where w1: "addExpressReqToTransaction (Some t) (AReq r) w = (Inr (), w1)"
    by (simp add: addExpressReqToTransaction_request)
  then have c1: "span_count t w1 = span_count t w"
    using span_count_addExpressReqToTransaction [of t "Some t" "AReq r" w] by simp
  define sp where "sp = (t, span_count t w)"
  define w2 where "w2 = snd (startChild t (h_name (caller k)) ''middleware'' w1)"
  have sc: "startChild t (h_name (caller k)) ''middleware'' w1 = (sp, w2)"
    using startChild_ref [of t "h_name (caller k)" "''middleware''" w1]
    by (simp add: sp_def w2_def c1 prod_eq_iff)
  have valid: "snd sp < span_count (fst sp) w2"
    by (simp add: sp_def w2_def span_count_simps c1)
  have zero: "finish_count sp w2 = 0"
    using finish_count_startChild [of t w1] by (simp add: sp_def w2_def c1)
  have "wrapped3 (caller k) this [AReq r, ARes rs, AFun host_next] w =
      dropped (h_apply (caller k) this
        [AReq r, ARes rs, AFun (wrappedNext (Some sp) (arg_at [AReq r, ARes rs, AFun host_next] 2))] w2)"
    by (rule wrapped3_run [OF _ _ _ w1 openSpan_Some [OF sc]]) (simp_all add: arg_at_def tx)
  then have "wrapped3 (caller k) this [AReq r, ARes rs, AFun host_next] w =
      (Inr VUndefined, (finish sp ^^ k) w2)"
    by (simp add: arg_at_def caller_apply call_times_wrappedNext dropped_def)
  moreover have "finish_count sp ((finish sp ^^ k) w2) = k"
    using finish_count_funpow [OF valid] zero by simp
  moreover have "span_count t ((finish sp ^^ k) w2) = Suc (span_count t w)"
    by (simp add: span_count_funpow w2_def span_count_simps c1)
  ultimately show ?thesis
    by (simp add: sp_def)
qed


text \<open>
  C5, as amended. An arity-3 wrapper is called with a request and a response that carries
  the transaction \<open>t\<close>. It opens a span \<open>sp\<close>, on which \<open>finish\<close> has not been called, and
  calls the original middleware with a continuation made from \<open>sp\<close> and the continuation
  it was given. Every call of that continuation calls \<open>finish\<close> on \<open>sp\<close> once and then
  calls the original continuation, on the world in which the span is finished, with the
  same receiver and arguments. So \<open>finish\<close> is called once for each call of the
  continuation by the middleware, not once for each call of the wrapper.
\<close>

theorem finish_before_forwarding:
  assumes g: "wrap fn = Inr g" and three: "h_length fn = 3"
    and req: "arg_at args 0 = AReq r" and res: "arg_at args 1 = ARes rs"
    and tx: "sentry_transaction rs = Some t"
  shows "\<exists>w1 sp w2.
      addExpressReqToTransaction (Some t) (AReq r) w = (Inr (), w1) \<and>
      startChild t (h_name fn) ''middleware'' w1 = (sp, w2) \<and>
      finish_count sp w2 = 0 \<and>
      h_apply g this args w =
        dropped (h_apply fn this
          [AReq r, ARes rs, AFun (wrappedNext (Some sp) (arg_at args 2))] w2) \<and>
      (\<forall>n this' arguments w'. arg_at args 2 = AFun n \<longrightarrow>
         c_apply (wrappedNext (Some sp) (arg_at args 2)) this' arguments w' =
           c_apply n this' arguments (finish sp w')) \<and>
      (\<forall>w'. snd sp < span_count (fst sp) w' \<longrightarrow>
         finish_count sp (finish sp w') = Suc (finish_count sp w'))"
proof -
  obtain w1 where w1: "addExpressReqToTransaction (Some t) (AReq r) w = (Inr (), w1)"
    by (simp add: addExpressReqToTransaction_request)
  define sp where "sp = (t, span_count t w1)"
  define w2 where "w2 = snd (startChild t (h_name fn) ''middleware'' w1)"
  have sc: "startChild t (h_name fn) ''middleware'' w1 = (sp, w2)"
    using startChild_ref [of t "h_name fn" "''middleware''" w1]
    by (simp add: sp_def w2_def prod_eq_iff)
  have zero: "finish_count sp w2 = 0"
    using finish_count_startChild [of t w1] by (simp add: sp_def w2_def)
  from g three have "g = Handler 3 [] (wrapped3 fn)"
    by (auto elim: wrap_cases)
  then have run: "h_apply g this args w =
        dropped (h_apply fn this
          [AReq r, ARes rs, AFun (wrappedNext (Some sp) (arg_at args 2))] w2)"
    using wrapped3_run [OF req res _ w1 openSpan_Some [OF sc], of this] by (simp add: tx)
  have fwd: "\<forall>n this' arguments w'. arg_at args 2 = AFun n \<longrightarrow>
         c_apply (wrappedNext (Some sp) (arg_at args 2)) this' arguments w' =
           c_apply n this' arguments (finish sp w')"
    by (simp add: wrappedNext_apply)
  have cnt: "\<forall>w'. snd sp < span_count (fst sp) w' \<longrightarrow>
         finish_count sp (finish sp w') = Suc (finish_count sp w')"
    by (simp add: finish_count_finish)
  from w1 sc zero run fwd cnt show ?thesis by blast
qed

theorem finish_before_forwarding_witness:
  "wrap pass3 = Inr (Handler 3 [] (wrapped3 pass3)) \<and> h_length pass3 = 3 \<and>
   sentry_transaction res_traced = Some 7 \<and>
   (\<exists>w1 sp w2.
      addExpressReqToTransaction (Some 7) (AReq req_users) world0 = (Inr (), w1) \<and>
      startChild 7 ''pass'' ''middleware'' w1 = (sp, w2) \<and>
      finish_count sp w2 = 0 \<and>
      h_apply (Handler 3 [] (wrapped3 pass3)) (VRef 9) [AReq req_users, ARes res_traced, AFun host_next] world0 =
        dropped (h_apply pass3 (VRef 9)
          [AReq req_users, ARes res_traced, AFun (wrappedNext (Some sp) (AFun host_next))] w2) \<and>
      (\<forall>this' arguments w'.
         c_apply (wrappedNext (Some sp) (AFun host_next)) this' arguments w' =
           c_apply host_next this' arguments (finish sp w')))"
proof -
  have h1: "wrap pass3 = Inr (Handler 3 [] (wrapped3 pass3))"
    by (simp add: sample_wraps)
  have h2: "h_length pass3 = 3"
    by (simp add: sample_lengths)
  have h3: "arg_at [AReq req_users, ARes res_traced, AFun host_next] 0 = AReq req_users"
    by (simp add: arg_at_def)
  have h4: "arg_at [AReq req_users, ARes res_traced, AFun host_next] 1 = ARes res_traced"
    by (simp add: arg_at_def)
  have h5: "sentry_transaction res_traced = Some 7"
    by (simp add: sample_request)
  have h6: "arg_at [AReq req_users, ARes res_traced, AFun host_next] 2 = AFun host_next"
    by (simp add: arg_at_def)
  show ?thesis
    using h1 h2 h5 finish_before_forwarding [OF h1 h2 h3 h4 h5, of world0 "VRef 9"]
    unfolding h6 sample_names by blast
qed

text \<open>
  The claim as stated asks for one call of \<open>finish\<close> for each call of the wrapper. A
  middleware that calls its continuation twice leaves the one span of the transaction
  finished twice; one that never calls it leaves the span not finished.
\<close>

theorem finish_before_forwarding_counterexample:
  "wrap (caller 2) = Inr (Handler 3 [] (wrapped3 (caller 2))) \<and>
   sentry_transaction res_traced = Some 7 \<and>
   span_count 7 world0 = 0 \<and>
   fst (h_apply (Handler 3 [] (wrapped3 (caller 2))) (VRef 9)
          [AReq req_users, ARes res_traced, AFun host_next] world0) = Inr VUndefined \<and>
   span_count 7 (snd (h_apply (Handler 3 [] (wrapped3 (caller 2))) (VRef 9)
          [AReq req_users, ARes res_traced, AFun host_next] world0)) = 1 \<and>
   finish_count (7, 0) (snd (h_apply (Handler 3 [] (wrapped3 (caller 2))) (VRef 9)
          [AReq req_users, ARes res_traced, AFun host_next] world0)) = 2 \<and>
   wrap (caller 0) = Inr (Handler 3 [] (wrapped3 (caller 0))) \<and>
   fst (h_apply (Handler 3 [] (wrapped3 (caller 0))) (VRef 9)
          [AReq req_users, ARes res_traced, AFun host_next] world0) = Inr VUndefined \<and>
   span_count 7 (snd (h_apply (Handler 3 [] (wrapped3 (caller 0))) (VRef 9)
          [AReq req_users, ARes res_traced, AFun host_next] world0)) = 1 \<and>
   finish_count (7, 0) (snd (h_apply (Handler 3 [] (wrapped3 (caller 0))) (VRef 9)
          [AReq req_users, ARes res_traced, AFun host_next] world0)) = 0"
proof -
  have tx: "sentry_transaction res_traced = Some 7"
    by (simp add: sample_request)
  have empty: "span_count 7 world0 = 0"
    by (simp add: span_count_def world0_simps)
  obtain w' where two:
    "wrapped3 (caller 2) (VRef 9) [AReq req_users, ARes res_traced, AFun host_next] world0 =
       (Inr VUndefined, w')"
    "span_count 7 w' = Suc (span_count 7 world0)" "finish_count (7, span_count 7 world0) w' = 2"
    using wrapped3_caller [OF tx, of 2 "VRef 9" req_users world0] by blast
  obtain w'' where none:
    "wrapped3 (caller 0) (VRef 9) [AReq req_users, ARes res_traced, AFun host_next] world0 =
       (Inr VUndefined, w'')"
    "span_count 7 w'' = Suc (span_count 7 world0)" "finish_count (7, span_count 7 world0) w'' = 0"
    using wrapped3_caller [OF tx, of 0 "VRef 9" req_users world0] by blast
  from two none show ?thesis
    by (simp add: sample_wraps tx empty)
qed

section \<open>Returned values\<close>

lemma fst_dropped:
  "fst (dropped out) = (case fst out of Inl e \<Rightarrow> Inl e | Inr v \<Rightarrow> Inr VUndefined)"
  by (cases out) (simp add: dropped_def split: sum.splits)

lemma send2_apply:
  "h_apply send2 this arguments w = (Inr (VStr ''sent''), w)"
  by (simp add: send2_def)

lemma pass3_apply:
  "h_apply pass3 this [a, b, AFun c] w = c_apply c this [] w"
  by (simp add: pass3_def arg_at_def)

text \<open>
  C10. When the reads and calls before the call of the original middleware go through,
  an arity-2 wrapper returns (or throws) what the original middleware returns (or throws);
  an arity-3 or arity-4 wrapper throws what the original throws and returns
  \<^verbatim>\<open>undefined\<close> whatever the original returns; and the continuation that such a wrapper
  passes on returns (or throws) what the original continuation returns (or throws).
\<close>

theorem returned_values:
  assumes g: "wrap fn = Inr g"
    and tx: "get_sentry_transaction (arg_at args (if h_length fn = 4 then 2 else 1)) = Inr tx"
    and w1: "addExpressReqToTransaction tx (arg_at args (if h_length fn = 4 then 1 else 0)) w = (Inr u, w1)"
    and sp: "openSpan tx fn w1 = (sp, w2)"
  shows "(h_length fn = 2 \<longrightarrow>
            fst (h_apply g this args w) =
            fst (h_apply fn this args
                   (case sp of
                      Some s \<Rightarrow> (case arg_at args 1 of
                                   ARes rs \<Rightarrow> once (res_id rs) ''finish'' (FinishSpan s) w2
                                 | _ \<Rightarrow> w2)
                    | None \<Rightarrow> w2))) \<and>
         (h_length fn = 3 \<longrightarrow>
            fst (h_apply g this args w) =
            (case fst (h_apply fn this
                         [arg_at args 0, arg_at args 1, AFun (wrappedNext sp (arg_at args 2))] w2) of
               Inl e \<Rightarrow> Inl e
             | Inr v \<Rightarrow> Inr VUndefined)) \<and>
         (h_length fn = 4 \<longrightarrow>
            fst (h_apply g this args w) =
            (case fst (h_apply fn this
                         [arg_at args 0, arg_at args 1, arg_at args 2,
                          AFun (wrappedNext sp (arg_at args 3))] w2) of
               Inl e \<Rightarrow> Inl e
             | Inr v \<Rightarrow> Inr VUndefined)) \<and>
         (\<forall>n this' arguments w'.
            fst (c_apply (wrappedNext sp (AFun n)) this' arguments w') =
            fst (c_apply n this' arguments (case sp of Some s \<Rightarrow> finish s w' | None \<Rightarrow> w')))"
proof (intro conjI impI allI)
  assume a: "h_length fn = 2"
  with g have "g = Handler 2 [] (wrapped2 fn)"
    by (auto elim: wrap_cases)
  moreover from a tx w1
  have "get_sentry_transaction (arg_at args 1) = Inr tx"
    "addExpressReqToTransaction tx (arg_at args 0) w = (Inr u, w1)"
    by simp_all
  note wrapped2_run [OF refl refl this sp, of this]
  ultimately show "fst (h_apply g this args w) =
            fst (h_apply fn this args
                   (case sp of
                      Some s \<Rightarrow> (case arg_at args 1 of
                                   ARes rs \<Rightarrow> once (res_id rs) ''finish'' (FinishSpan s) w2
                                 | _ \<Rightarrow> w2)
                    | None \<Rightarrow> w2))"
    by simp
next
  assume a: "h_length fn = 3"
  with g have "g = Handler 3 [] (wrapped3 fn)"
    by (auto elim: wrap_cases)
  moreover from a tx w1
  have "get_sentry_transaction (arg_at args 1) = Inr tx"
    "addExpressReqToTransaction tx (arg_at args 0) w = (Inr u, w1)"
    by simp_all
  note wrapped3_run [OF refl refl this sp, of this]
  ultimately show "fst (h_apply g this args w) =
            (case fst (h_apply fn this
                         [arg_at args 0, arg_at args 1, AFun (wrappedNext sp (arg_at args 2))] w2) of
               Inl e \<Rightarrow> Inl e
             | Inr v \<Rightarrow> Inr VUndefined)"
    by (simp add: fst_dropped)
next
  assume a: "h_length fn = 4"
  with g have "g = Handler 4 [] (wrapped4 fn)"
    by (auto elim: wrap_cases)
  moreover from a tx w1
  have "get_sentry_transaction (arg_at args 2) = Inr tx"
    "addExpressReqToTransaction tx (arg_at args 1) w = (Inr u, w1)"
    by simp_all
  note wrapped4_run [OF refl refl this sp, of this]
  ultimately show "fst (h_apply g this args w) =
            (case fst (h_apply fn this
                         [arg_at args 0, arg_at args 1, arg_at args 2,
                          AFun (wrappedNext sp (arg_at args 3))] w2) of
               Inl e \<Rightarrow> Inl e
             | Inr v \<Rightarrow> Inr VUndefined)"
    by (simp add: fst_dropped)
next
  fix n this' arguments w'
  show "fst (c_apply (wrappedNext sp (AFun n)) this' arguments w') =
        fst (c_apply n this' arguments (case sp of Some s \<Rightarrow> finish s w' | None \<Rightarrow> w'))"
    by (simp add: wrappedNext_apply)
qed

theorem returned_values_witness:
  "wrap pass3 = Inr (Handler 3 [] (wrapped3 pass3)) \<and>
   wrap send2 = Inr (Handler 2 [] (wrapped2 send2)) \<and>
   get_sentry_transaction (ARes res_plain) = Inr None \<and>
   addExpressReqToTransaction None (AReq req_users) world0 = (Inr (), world0) \<and>
   openSpan None pass3 world0 = (None, world0) \<and>
   fst (h_apply send2 (VRef 9) [AReq req_users, ARes res_plain, AFun host_next] world0) =
     Inr (VStr ''sent'') \<and>
   fst (h_apply (Handler 2 [] (wrapped2 send2)) (VRef 9)
          [AReq req_users, ARes res_plain, AFun host_next] world0) = Inr (VStr ''sent'') \<and>
   fst (h_apply pass3 (VRef 9) [AReq req_users, ARes res_plain, AFun host_next] world0) =
     Inr (VStr ''routed'') \<and>
   fst (h_apply (Handler 3 [] (wrapped3 pass3)) (VRef 9)
          [AReq req_users, ARes res_plain, AFun host_next] world0) = Inr VUndefined \<and>
   fst (c_apply (wrappedNext None (AFun host_next)) (VRef 9) [] world0) = Inr (VStr ''routed'')"
proof -
  let ?args = "[AReq req_users, ARes res_plain, AFun host_next]"
  have h1: "wrap pass3 = Inr (Handler 3 [] (wrapped3 pass3))"
    by (simp add: sample_wraps)
  have h2: "get_sentry_transaction (arg_at ?args (if h_length pass3 = 4 then 2 else 1)) = Inr None"
    by (simp add: sample_lengths arg_at_def sample_request)
  have h3: "addExpressReqToTransaction None (arg_at ?args (if h_length pass3 = 4 then 1 else 0)) world0 =
      (Inr (), world0)"
    by simp
  have h4: "openSpan None pass3 world0 = (None, world0)"
    by simp
  have k1: "wrap send2 = Inr (Handler 2 [] (wrapped2 send2))"
    by (simp add: sample_wraps)
  have k2: "get_sentry_transaction (arg_at ?args (if h_length send2 = 4 then 2 else 1)) = Inr None"
    by (simp add: sample_lengths arg_at_def sample_request)
  have k3: "addExpressReqToTransaction None (arg_at ?args (if h_length send2 = 4 then 1 else 0)) world0 =
      (Inr (), world0)"
    by simp
  have k4: "openSpan None send2 world0 = (None, world0)"
    by simp
  show ?thesis
    using h1 k1 returned_values [OF h1 h2 h3 h4, of "VRef 9"]
      returned_values [OF k1 k2 k3 k4, of "VRef 9"]
    by (simp add: sample_lengths sample_request arg_at_def pass3_apply send2_apply
        wrappedNext_apply sample_next)
qed

section \<open>Registration\<close>

lemma mapE_total:
  "(\<forall>x \<in> set xs. \<exists>y. f x = Inr y) \<Longrightarrow> \<exists>ys. mapE f xs = Inr ys"
  by (induction xs) (auto split: sum.splits)

lemma wrap_total:
  "h_length f \<in> {2, 3, 4} \<Longrightarrow> \<exists>g. wrap f = Inr g"
  by (auto simp: wrap_def Let_def)

lemma wrapElem_Inr:
  "wrapElem a = Inr b \<Longrightarrow>
     (case a of UFun f \<Rightarrow> (\<exists>g. wrap f = Inr g \<and> b = UFun g) | _ \<Rightarrow> b = a)"
  by (auto simp: wrapElem_def split: uarg.splits sum.splits)

lemma wrapElem_total:
  "(\<forall>f. a = UFun f \<longrightarrow> h_length f \<in> {2, 3, 4}) \<Longrightarrow> \<exists>b. wrapElem a = Inr b"
  by (cases a) (auto simp: wrapElem_def wrap_def Let_def)

lemma wrapArg_array:
  assumes "wrapArg (UArr xs) = Inr b"
  shows "\<exists>ys. b = UArr ys \<and> length ys = length xs \<and>
           (\<forall>j < length xs.
              case xs ! j of
                UFun f \<Rightarrow> (\<exists>g. wrap f = Inr g \<and> ys ! j = UFun g)
              | _ \<Rightarrow> ys ! j = xs ! j)"
proof -
  from assms obtain ys where ys: "mapE wrapElem xs = Inr ys" "b = UArr ys"
    by (auto simp: wrapArg_def split: sum.splits)
  from mapE_Inr [OF ys(1)]
  have len: "length ys = length xs" and each: "\<forall>j < length xs. wrapElem (xs ! j) = Inr (ys ! j)"
    by simp_all
  have "\<forall>j < length xs.
          case xs ! j of
            UFun f \<Rightarrow> (\<exists>g. wrap f = Inr g \<and> ys ! j = UFun g)
          | _ \<Rightarrow> ys ! j = xs ! j"
    using each wrapElem_Inr by blast
  with ys(2) len show ?thesis by blast
qed

lemma wrapArg_Inr:
  assumes "wrapArg a = Inr b"
  shows "case a of
           UVal v \<Rightarrow> b = UVal v
         | UFun f \<Rightarrow> (\<exists>g. wrap f = Inr g \<and> b = UFun g)
         | UArr xs \<Rightarrow>
             (\<exists>ys. b = UArr ys \<and> length ys = length xs \<and>
                (\<forall>j < length xs.
                   case xs ! j of
                     UFun f \<Rightarrow> (\<exists>g. wrap f = Inr g \<and> ys ! j = UFun g)
                   | _ \<Rightarrow> ys ! j = xs ! j))"
proof (cases a)
  case (UVal v)
  with assms show ?thesis by (auto simp: wrapArg_def)
next
  case (UFun f)
  with assms show ?thesis by (auto simp: wrapArg_def split: sum.splits)
next
  case (UArr xs)
  with assms wrapArg_array [of xs b] show ?thesis by simp
qed

lemma wrapArg_total:
  assumes "\<forall>f. a = UFun f \<longrightarrow> h_length f \<in> {2, 3, 4}"
    and "\<forall>xs f. a = UArr xs \<longrightarrow> UFun f \<in> set xs \<longrightarrow> h_length f \<in> {2, 3, 4}"
  shows "\<exists>b. wrapArg a = Inr b"
proof (cases a)
  case (UVal v)
  then show ?thesis by (simp add: wrapArg_def)
next
  case (UFun f)
  with assms(1) obtain g where "wrap f = Inr g"
    using wrap_total by blast
  with UFun show ?thesis by (simp add: wrapArg_def)
next
  case (UArr xs)
  with assms(2) have "\<forall>x \<in> set xs. \<exists>y. wrapElem x = Inr y"
    by (auto intro!: wrapElem_total)
  from mapE_total [OF this] obtain ys where "mapE wrapElem xs = Inr ys" ..
  with UArr show ?thesis by (simp add: wrapArg_def)
qed

lemma wrapUseArgs_total:
  assumes "\<forall>f. (UFun f \<in> set args \<or> (\<exists>xs. UArr xs \<in> set args \<and> UFun f \<in> set xs)) \<longrightarrow>
               h_length f \<in> {2, 3, 4}"
  shows "\<exists>args'. wrapUseArgs args = Inr args'"
proof -
  have "\<forall>a \<in> set args. \<exists>b. wrapArg a = Inr b"
  proof
    fix a assume "a \<in> set args"
    with assms show "\<exists>b. wrapArg a = Inr b"
      by (intro wrapArg_total) blast+
  qed
  from mapE_total [OF this] show ?thesis
    by (simp add: wrapUseArgs_def)
qed

text \<open>
  C6, as amended. The functions among the arguments of a registration, and among the
  elements of its array arguments, are middlewares (they declare 2, 3 or 4 parameters; C2
  is about the others). Then \<open>wrapUseArgs\<close> returns a list as long as the argument list, and an array at
  position \<open>i\<close> becomes the array of the same length in which each function is replaced by
  what \<open>wrap\<close> returns for it and every other element, a nested array too, is the element
  it was.
\<close>

theorem arrays_mapped_elementwise:
  assumes ok: "\<forall>f. (UFun f \<in> set args \<or> (\<exists>xs. UArr xs \<in> set args \<and> UFun f \<in> set xs)) \<longrightarrow>
               h_length f \<in> {2, 3, 4}"
    and i: "i < length args" and arr: "args ! i = UArr xs"
  shows "\<exists>args' ys.
           wrapUseArgs args = Inr args' \<and> length args' = length args \<and>
           args' ! i = UArr ys \<and> length ys = length xs \<and>
           (\<forall>j < length xs.
              case xs ! j of
                UFun f \<Rightarrow> (\<exists>g. wrap f = Inr g \<and> ys ! j = UFun g)
              | UVal v \<Rightarrow> ys ! j = UVal v
              | UArr zs \<Rightarrow> ys ! j = UArr zs)"
proof -
  from wrapUseArgs_total [OF ok] obtain args' where args': "wrapUseArgs args = Inr args'" ..
  then have m: "mapE wrapArg args = Inr args'"
    by (simp add: wrapUseArgs_def)
  from mapE_Inr [OF m] i arr have len: "length args' = length args"
    and "wrapArg (UArr xs) = Inr (args' ! i)"
    by auto
  from wrapArg_array [OF this(2)] obtain ys where ys: "args' ! i = UArr ys" "length ys = length xs"
    "\<forall>j < length xs.
       case xs ! j of
         UFun f \<Rightarrow> (\<exists>g. wrap f = Inr g \<and> ys ! j = UFun g)
       | _ \<Rightarrow> ys ! j = xs ! j"
    by blast
  have "\<forall>j < length xs.
          case xs ! j of
            UFun f \<Rightarrow> (\<exists>g. wrap f = Inr g \<and> ys ! j = UFun g)
          | UVal v \<Rightarrow> ys ! j = UVal v
          | UArr zs \<Rightarrow> ys ! j = UArr zs"
  proof (intro allI impI)
    fix j assume "j < length xs"
    with ys(3) show "case xs ! j of
            UFun f \<Rightarrow> (\<exists>g. wrap f = Inr g \<and> ys ! j = UFun g)
          | UVal v \<Rightarrow> ys ! j = UVal v
          | UArr zs \<Rightarrow> ys ! j = UArr zs"
      by (cases "xs ! j") auto
  qed
  with args' len ys(1,2) show ?thesis by blast
qed

theorem arrays_mapped_elementwise_witness:
  "h_length send2 \<in> {2, 3, 4} \<and> h_length pass3 \<in> {2, 3, 4} \<and>
   wrapUseArgs [UArr [UFun send2, UVal (VStr ''/path''), UFun pass3, UArr [UFun noop0]]] =
     Inr [UArr [UFun (Handler 2 [] (wrapped2 send2)), UVal (VStr ''/path''),
                UFun (Handler 3 [] (wrapped3 pass3)), UArr [UFun noop0]]] \<and>
   (\<exists>args' ys.
      wrapUseArgs [UArr [UFun send2, UVal (VStr ''/path''), UFun pass3, UArr [UFun noop0]]] = Inr args' \<and>
      length args' = 1 \<and> args' ! 0 = UArr ys \<and> length ys = 4 \<and>
      (\<exists>g. wrap send2 = Inr g \<and> ys ! 0 = UFun g) \<and>
      ys ! 1 = UVal (VStr ''/path'') \<and>
      (\<exists>g. wrap pass3 = Inr g \<and> ys ! 2 = UFun g) \<and>
      ys ! 3 = UArr [UFun noop0])"
proof -
  let ?xs = "[UFun send2, UVal (VStr ''/path''), UFun pass3, UArr [UFun noop0]]"
  have ok: "\<forall>f. (UFun f \<in> set [UArr ?xs] \<or> (\<exists>xs. UArr xs \<in> set [UArr ?xs] \<and> UFun f \<in> set xs)) \<longrightarrow>
      h_length f \<in> {2, 3, 4}"
    by (auto simp: sample_lengths)
  have i: "0 < length [UArr ?xs]" and arr: "[UArr ?xs] ! 0 = UArr ?xs"
    by simp_all
  have ev: "wrapUseArgs [UArr ?xs] =
      Inr [UArr [UFun (Handler 2 [] (wrapped2 send2)), UVal (VStr ''/path''),
                 UFun (Handler 3 [] (wrapped3 pass3)), UArr [UFun noop0]]]"
    by (simp add: wrapUseArgs_def wrapArg_def wrapElem_def sample_wraps)
  from arrays_mapped_elementwise [OF ok i arr] obtain args' ys where r:
    "wrapUseArgs [UArr ?xs] = Inr args'" "length args' = length [UArr ?xs]"
    "args' ! 0 = UArr ys" "length ys = length ?xs"
    "\<forall>j < length ?xs.
       case ?xs ! j of
         UFun f \<Rightarrow> (\<exists>g. wrap f = Inr g \<and> ys ! j = UFun g)
       | UVal v \<Rightarrow> ys ! j = UVal v
       | UArr zs \<Rightarrow> ys ! j = UArr zs"
    by blast
  from r(5) [rule_format, of 0] r(5) [rule_format, of 1] r(5) [rule_format, of 2]
    r(5) [rule_format, of 3]
  have "(\<exists>g. wrap send2 = Inr g \<and> ys ! 0 = UFun g)" "ys ! 1 = UVal (VStr ''/path'')"
    "(\<exists>g. wrap pass3 = Inr g \<and> ys ! 2 = UFun g)" "ys ! 3 = UArr [UFun noop0]"
    by simp_all
  with r(1-4) ev show ?thesis
    by (intro conjI exI [of _ args'] exI [of _ ys]) (simp_all add: sample_lengths)
qed

text \<open>
  The claim as stated is about every argument list. An array that holds a function
  without parameters is mapped to no list: \<open>wrap\<close> throws on that element and
  \<open>wrapUseArgs\<close> throws with it.
\<close>

theorem arrays_mapped_elementwise_counterexample:
  "h_length noop0 = 0 \<and>
   wrap noop0 = Inl (ArgumentCountError 0) \<and>
   wrapUseArgs [UArr [UFun send2, UVal (VStr ''/path''), UFun noop0]] = Inl (ArgumentCountError 0)"
  by (simp add: wrapUseArgs_def wrapArg_def wrapElem_def sample_wraps sample_lengths)

text \<open>
  C7, as amended. Every function among the arguments of the call, and among the elements
  of its array arguments, declares 2, 3 or 4 parameters. Then a call of a patched registration method
  is the call of the original method with the same receiver, on the same state and with
  the list \<open>wrapUseArgs\<close> returns: it is as long as the argument list, and position by
  position a plain value is the value it was, a function is what \<open>wrap\<close> returns for it,
  and an array is mapped element by element in the same way.
\<close>

theorem patched_forwards:
  assumes ok: "\<forall>f. (UFun f \<in> set args \<or> (\<exists>xs. UArr xs \<in> set args \<and> UFun f \<in> set xs)) \<longrightarrow>
               h_length f \<in> {2, 3, 4}"
  shows "\<exists>args'.
           wrapUseArgs args = Inr args' \<and>
           a_apply (patchMiddleware app meth meth) this args s = a_apply (app meth) this args' s \<and>
           length args' = length args \<and>
           (\<forall>i < length args.
              case args ! i of
                UVal v \<Rightarrow> args' ! i = UVal v
              | UFun f \<Rightarrow> (\<exists>g. wrap f = Inr g \<and> args' ! i = UFun g)
              | UArr xs \<Rightarrow>
                  (\<exists>ys. args' ! i = UArr ys \<and> length ys = length xs \<and>
                     (\<forall>j < length xs.
                        case xs ! j of
                          UFun f \<Rightarrow> (\<exists>g. wrap f = Inr g \<and> ys ! j = UFun g)
                        | _ \<Rightarrow> ys ! j = xs ! j)))"
proof -
  from wrapUseArgs_total [OF ok] obtain args' where args': "wrapUseArgs args = Inr args'" ..
  then have m: "mapE wrapArg args = Inr args'"
    by (simp add: wrapUseArgs_def)
  from mapE_Inr [OF m] have len: "length args' = length args"
    and each: "\<forall>i < length args. wrapArg (args ! i) = Inr (args' ! i)"
    by simp_all
  have call: "a_apply (patchMiddleware app meth meth) this args s = a_apply (app meth) this args' s"
    by (simp add: patched_apply args')
  have "\<forall>i < length args.
              case args ! i of
                UVal v \<Rightarrow> args' ! i = UVal v
              | UFun f \<Rightarrow> (\<exists>g. wrap f = Inr g \<and> args' ! i = UFun g)
              | UArr xs \<Rightarrow>
                  (\<exists>ys. args' ! i = UArr ys \<and> length ys = length xs \<and>
                     (\<forall>j < length xs.
                        case xs ! j of
                          UFun f \<Rightarrow> (\<exists>g. wrap f = Inr g \<and> ys ! j = UFun g)
                        | _ \<Rightarrow> ys ! j = xs ! j))"
    using each wrapArg_Inr by blast
  with args' call len show ?thesis by blast
qed

lemma counting_app_apply:
  "a_apply (counting_app k) this arguments n = (Inr this, n + length arguments)"
  by (simp add: counting_app_def)

theorem patched_forwards_witness:
  "h_length send2 \<in> {2, 3, 4} \<and> h_length pass3 \<in> {2, 3, 4} \<and>
   (\<exists>args'.
      wrapUseArgs [UVal (VStr ''/api''), UFun send2, UArr [UFun pass3, UVal (VStr ''/x'')]] = Inr args' \<and>
      a_apply (patchMiddleware counting_app Use Use) (VRef 9)
        [UVal (VStr ''/api''), UFun send2, UArr [UFun pass3, UVal (VStr ''/x'')]] 5 =
        a_apply (counting_app Use) (VRef 9) args' 5 \<and>
      length args' = 3 \<and> args' ! 0 = UVal (VStr ''/api'') \<and>
      (\<exists>g. wrap send2 = Inr g \<and> args' ! 1 = UFun g)) \<and>
   a_apply (patchMiddleware counting_app Use Use) (VRef 9)
     [UVal (VStr ''/api''), UFun send2, UArr [UFun pass3, UVal (VStr ''/x'')]] 5 = (Inr (VRef 9), 8)"
proof -
  let ?args = "[UVal (VStr ''/api''), UFun send2, UArr [UFun pass3, UVal (VStr ''/x'')]]"
  have ok: "\<forall>f. (UFun f \<in> set ?args \<or> (\<exists>xs. UArr xs \<in> set ?args \<and> UFun f \<in> set xs)) \<longrightarrow>
      h_length f \<in> {2, 3, 4}"
    by (auto simp: sample_lengths)
  from patched_forwards [OF ok, of counting_app Use "VRef 9" 5] obtain args' where r:
    "wrapUseArgs ?args = Inr args'"
    "a_apply (patchMiddleware counting_app Use Use) (VRef 9) ?args 5 =
       a_apply (counting_app Use) (VRef 9) args' 5"
    "length args' = length ?args"
    "\<forall>i < length ?args.
       case ?args ! i of
         UVal v \<Rightarrow> args' ! i = UVal v
       | UFun f \<Rightarrow> (\<exists>g. wrap f = Inr g \<and> args' ! i = UFun g)
       | UArr xs \<Rightarrow>
           (\<exists>ys. args' ! i = UArr ys \<and> length ys = length xs \<and>
              (\<forall>j < length xs.
                 case xs ! j of
                   UFun f \<Rightarrow> (\<exists>g. wrap f = Inr g \<and> ys ! j = UFun g)
                 | _ \<Rightarrow> ys ! j = xs ! j))"
    by blast
  from r(4) [rule_format, of 0] r(4) [rule_format, of 1]
  have e: "args' ! 0 = UVal (VStr ''/api'')" "\<exists>g. wrap send2 = Inr g \<and> args' ! 1 = UFun g"
    by simp_all
  have "a_apply (patchMiddleware counting_app Use Use) (VRef 9) ?args 5 = (Inr (VRef 9), 8)"
    by (simp add: r(2,3) counting_app_apply)
  with r(1-3) e show ?thesis
    by (intro conjI exI [of _ args']) (simp_all add: sample_lengths)
qed

text \<open>
  The claim as stated is about every argument list. Given a function without parameters,
  the original method counts one argument and returns its receiver; the patched method
  throws, and the state of the host shows that the original method was not called.
\<close>

theorem patched_forwards_counterexample:
  "h_length noop0 = 0 \<and>
   wrapUseArgs [UFun noop0] = Inl (ArgumentCountError 0) \<and>
   a_apply (counting_app Use) (VRef 9) [UFun noop0] 5 = (Inr (VRef 9), 6) \<and>
   a_apply (patchMiddleware counting_app Use Use) (VRef 9) [UFun noop0] 5 =
     (Inl (ArgumentCountError 0), 5)"
  by (simp add: patched_apply wrapUseArgs_def wrapArg_def sample_wraps sample_lengths
      counting_app_apply)

section \<open>Setup\<close>

lemma patchMiddleware_other:
  "k \<noteq> meth \<Longrightarrow> patchMiddleware app meth k = app k"
  by (simp add: patchMiddleware_def Let_def)

lemma patchMiddleware_same:
  "patchMiddleware app meth meth = patched (app meth)"
  by (simp add: patchMiddleware_def Let_def)

lemma fold_patch_other:
  "k \<notin> Verb ` set ms \<Longrightarrow> fold (\<lambda>meth a. patchMiddleware a (Verb meth)) ms app k = app k"
  by (induction ms arbitrary: app) (auto simp: patchMiddleware_other)

lemma routeMiddlewares_other:
  "k \<notin> Verb ` set (case methods of None \<Rightarrow> [] | Some ms \<Rightarrow> ms) \<Longrightarrow>
     routeMiddlewares app methods k = app k"
  by (simp add: routeMiddlewares_def fold_patch_other)

lemma setupOnce_app:
  "x_app x = Some a \<Longrightarrow>
     apps (setupOnce x rt) a = routeMiddlewares (instrumentMiddlewares (apps rt a)) (x_methods x)"
  by (simp add: setupOnce_def)

text \<open>
  C8. After \<open>setupOnce\<close> with the application \<open>a\<close>, every verb that is not among the
  configured ones has the function it had before, and \<^verbatim>\<open>use\<close> has the replacement of the
  function it had. With no verbs configured no verb is changed. No other application is
  changed and nothing is logged.
\<close>

theorem unconfigured_methods_unpatched:
  assumes "x_app x = Some a"
  shows "(\<forall>m. m \<notin> set (case x_methods x of None \<Rightarrow> [] | Some ms \<Rightarrow> ms) \<longrightarrow>
              apps (setupOnce x rt) a (Verb m) = apps rt a (Verb m)) \<and>
         apps (setupOnce x rt) a Use = patched (apps rt a Use) \<and>
         (x_methods x = None \<longrightarrow> (\<forall>m. apps (setupOnce x rt) a (Verb m) = apps rt a (Verb m))) \<and>
         (\<forall>b. b \<noteq> a \<longrightarrow> apps (setupOnce x rt) b = apps rt b) \<and>
         logged (setupOnce x rt) = logged rt"
proof (intro conjI allI impI)
  fix m assume "m \<notin> set (case x_methods x of None \<Rightarrow> [] | Some ms \<Rightarrow> ms)"
  then have "Verb m \<notin> Verb ` set (case x_methods x of None \<Rightarrow> [] | Some ms \<Rightarrow> ms)"
    by auto
  then show "apps (setupOnce x rt) a (Verb m) = apps rt a (Verb m)"
    by (simp add: setupOnce_app [OF assms] routeMiddlewares_other instrumentMiddlewares_def
        patchMiddleware_other)
next
  have "Use \<notin> Verb ` set (case x_methods x of None \<Rightarrow> [] | Some ms \<Rightarrow> ms)"
    by auto
  then show "apps (setupOnce x rt) a Use = patched (apps rt a Use)"
    by (simp add: setupOnce_app [OF assms] routeMiddlewares_other instrumentMiddlewares_def
        patchMiddleware_same)
next
  fix m assume "x_methods x = None"
  then show "apps (setupOnce x rt) a (Verb m) = apps rt a (Verb m)"
    by (simp add: setupOnce_app [OF assms] routeMiddlewares_def instrumentMiddlewares_def
        patchMiddleware_other)
next
  fix b assume "b \<noteq> a"
  with assms show "apps (setupOnce x rt) b = apps rt b"
    by (simp add: setupOnce_def)
next
  from assms show "logged (setupOnce x rt) = logged rt"
    by (simp add: setupOnce_def)
qed

theorem unconfigured_methods_unpatched_witness:
  "x_app \<lparr>x_app = Some 0, x_methods = Some [M_get, M_post]\<rparr> = Some 0 \<and>
   M_put \<notin> set [M_get, M_post] \<and>
   apps (setupOnce \<lparr>x_app = Some 0, x_methods = Some [M_get, M_post]\<rparr>
           \<lparr>apps = (\<lambda>_. counting_app), logged = []\<rparr>) 0 (Verb M_put) = counting_app (Verb M_put) \<and>
   apps (setupOnce \<lparr>x_app = Some 0, x_methods = Some [M_get, M_post]\<rparr>
           \<lparr>apps = (\<lambda>_. counting_app), logged = []\<rparr>) 0 Use = patched (counting_app Use)"
proof -
  have h: "x_app \<lparr>x_app = Some 0, x_methods = Some [M_get, M_post]\<rparr> = Some 0"
    by simp
  show ?thesis
    using unconfigured_methods_unpatched [OF h, of "\<lparr>apps = (\<lambda>_. counting_app), logged = []\<rparr>"]
    by simp
qed

text \<open>
  C9. Without an application, \<open>setupOnce\<close> appends its diagnostic to the log and changes no
  registration method of any application. (\<open>setupOnce\<close> has no branch that throws.)
\<close>

theorem setup_without_app:
  assumes "x_app x = None"
  shows "apps (setupOnce x rt) = apps rt \<and>
         logged (setupOnce x rt) = logged rt @ [''ExpressIntegration is missing an Express instance'']"
  using assms by (simp add: setupOnce_def)

theorem setup_without_app_witness:
  "x_app \<lparr>x_app = None, x_methods = Some [M_get]\<rparr> = None \<and>
   apps (setupOnce \<lparr>x_app = None, x_methods = Some [M_get]\<rparr>
           \<lparr>apps = (\<lambda>_. counting_app), logged = []\<rparr>) = (\<lambda>_. counting_app) \<and>
   logged (setupOnce \<lparr>x_app = None, x_methods = Some [M_get]\<rparr>
           \<lparr>apps = (\<lambda>_. counting_app), logged = []\<rparr>) =
     [''ExpressIntegration is missing an Express instance'']"
proof -
  have h: "x_app \<lparr>x_app = None, x_methods = Some [M_get]\<rparr> = None"
    by simp
  show ?thesis
    using setup_without_app [OF h, of "\<lparr>apps = (\<lambda>_. counting_app), logged = []\<rparr>"]
    by simp
qed

end
